theory Spec2Isabelle
  imports Main "HOL-Library.Word"
begin

section \<open>Strings of the program\<close>

text \<open>
  A JavaScript string is a sequence of 16-bit UTF-16 code units. Literals of the
  source are ASCII, so they are written \<open>js ''...''\<close>.
\<close>

type_synonym jsstring = "16 word list"

definition js :: "string \<Rightarrow> jsstring" where
  "js s = map of_char s"

text \<open>
  \<open>String.prototype.trim\<close> removes the code points of the ECMAScript productions
  WhiteSpace and LineTerminator from both ends. All of them lie in the Basic
  Multilingual Plane, so they are single code units.
\<close>

definition whitespace :: "16 word list" where
  "whitespace =
     [0x0009, 0x000A, 0x000B, 0x000C, 0x000D, 0x0020, 0x00A0, 0x1680,
      0x2000, 0x2001, 0x2002, 0x2003, 0x2004, 0x2005, 0x2006, 0x2007,
      0x2008, 0x2009, 0x200A, 0x2028, 0x2029, 0x202F, 0x205F, 0x3000, 0xFEFF]"

definition is_whitespace :: "16 word \<Rightarrow> bool" where
  "is_whitespace c = (c \<in> set whitespace)"

definition trim :: "jsstring \<Rightarrow> jsstring" where
  "trim s = rev (dropWhile is_whitespace (rev (dropWhile is_whitespace s)))"

text \<open>
  \<open>String.prototype.includes\<close> (from position 0): the argument occurs as a
  contiguous run of code units.
\<close>

definition startsWith :: "jsstring \<Rightarrow> jsstring \<Rightarrow> bool" where
  "startsWith s sub = (take (length sub) s = sub)"

fun includes_js :: "jsstring \<Rightarrow> jsstring \<Rightarrow> bool" where
  "includes_js [] sub = (sub = [])"
| "includes_js (c # cs) sub = (startsWith (c # cs) sub \<or> includes_js cs sub)"

text \<open>
  \<open>String.prototype.toLowerCase\<close> follows the Unicode case mapping tables, which
  are not part of the program: the functions that use it take it as the parameter
  \<open>toLowerCase\<close>. Its restriction to the letters A to Z is used for concrete inputs.
\<close>

definition toLowerCase_ascii :: "jsstring \<Rightarrow> jsstring" where
  "toLowerCase_ascii s = map (\<lambda>c. if 0x41 \<le> c \<and> c \<le> 0x5A then c + 0x20 else c) s"

section \<open>Data model\<close>

text \<open>A task object \<open>{ id, text, done, priority }\<close>.\<close>

record todo =
  todo_id :: jsstring
  todo_text :: jsstring
  todo_done :: bool
  todo_priority :: jsstring

text \<open>
  The second argument \<open>newData\<close> of \<open>handleUpdateTodo\<close>. The handler is a closure of
  \<open>App\<close> with two callers: \<open>handleSubmit\<close> passes \<open>{ text, priority }\<close> and
  \<open>handleToggleDone\<close> passes \<open>{ done }\<close>. So the object holds some of the keys text,
  done and priority, never the key id. A key that is absent is \<open>None\<close>.
\<close>

record newData =
  new_text :: "jsstring option"
  new_done :: "bool option"
  new_priority :: "jsstring option"

text \<open>The object spread \<open>{ ...t, ...newData }\<close>: keys of \<open>newData\<close> win.\<close>

definition spread :: "todo \<Rightarrow> newData \<Rightarrow> todo" where
  "spread t d =
     \<lparr> todo_id = todo_id t,
       todo_text = (case new_text d of None \<Rightarrow> todo_text t | Some v \<Rightarrow> v),
       todo_done = (case new_done d of None \<Rightarrow> todo_done t | Some v \<Rightarrow> v),
       todo_priority = (case new_priority d of None \<Rightarrow> todo_priority t | Some v \<Rightarrow> v) \<rparr>"

record toast_state =
  isShow :: bool
  message :: jsstring

record modal_state =
  modal_isOpen :: bool
  modal_mode :: jsstring
  modal_todo :: "todo option"

record deleteModal_state =
  deleteModal_isOpen :: bool
  deleteModal_id :: "jsstring option"

text \<open>
  The state of the component \<open>App\<close>. \<open>storage\<close> is the entry of \<open>localStorage\<close> under
  the key \<open>todo_list_demo\<close> (the value that was serialised, \<open>None\<close> when the key is
  absent); \<open>writable\<close> tells whether \<open>localStorage.setItem\<close> succeeds (it throws when
  the quota is exceeded, and \<open>setValue\<close> catches that).
\<close>

record app =
  todos :: "todo list"
  storage :: "todo list option"
  writable :: bool
  toast :: toast_state
  modal :: modal_state
  deleteModal :: deleteModal_state

section \<open>The persisted store\<close>

text \<open>
  The initialiser of \<open>useLocalStorage\<close>. \<open>localStorage.getItem\<close> throws, returns
  \<open>null\<close> or returns a string; \<open>JSON.parse\<close> is the parameter \<open>parse\<close>, \<open>None\<close> when it
  throws a SyntaxError. The empty string is falsy.
\<close>

datatype getItem_result = Throws | Null | Item jsstring

definition useLocalStorage_init ::
  "(jsstring \<Rightarrow> 'v option) \<Rightarrow> getItem_result \<Rightarrow> 'v \<Rightarrow> 'v" where
  "useLocalStorage_init parse r initialValue =
     (case r of
        Throws \<Rightarrow> initialValue
      | Null \<Rightarrow> initialValue
      | Item item \<Rightarrow>
          if item = [] then initialValue
          else (case parse item of None \<Rightarrow> initialValue | Some v \<Rightarrow> v))"

text \<open>\<open>setValue\<close> of \<open>useLocalStorage\<close>, called with an updater function.\<close>

definition setTodos :: "(todo list \<Rightarrow> todo list) \<Rightarrow> app \<Rightarrow> app" where
  "setTodos f s =
     (let valueToStore = f (todos s)
      in s\<lparr> todos := valueToStore,
            storage := (if writable s then Some valueToStore else storage s) \<rparr>)"

text \<open>
  The initial value passed by \<open>App\<close>; \<open>u1\<close> and \<open>u2\<close> are the two results of
  \<open>crypto.randomUUID()\<close>.
\<close>

definition initialTodos :: "jsstring \<Rightarrow> jsstring \<Rightarrow> todo list" where
  "initialTodos u1 u2 =
     [ \<lparr> todo_id = u1, todo_text = js ''Learn React Hooks'', todo_done = False,
         todo_priority = js ''normal'' \<rparr>,
       \<lparr> todo_id = u2, todo_text = js ''Do morning exercise'', todo_done = True,
         todo_priority = js ''low'' \<rparr> ]"

definition App_todos_init ::
  "(jsstring \<Rightarrow> todo list option) \<Rightarrow> getItem_result \<Rightarrow> jsstring \<Rightarrow> jsstring \<Rightarrow> todo list" where
  "App_todos_init parse r u1 u2 = useLocalStorage_init parse r (initialTodos u1 u2)"

section \<open>Handlers of App\<close>

definition showToast :: "jsstring \<Rightarrow> app \<Rightarrow> app" where
  "showToast msg s = s\<lparr> toast := \<lparr> isShow = True, message = msg \<rparr> \<rparr>"

definition handleCloseModal :: "app \<Rightarrow> app" where
  "handleCloseModal s =
     s\<lparr> modal := \<lparr> modal_isOpen = False, modal_mode = js ''new'', modal_todo = None \<rparr> \<rparr>"

definition handleOpenModal :: "jsstring \<Rightarrow> todo option \<Rightarrow> app \<Rightarrow> app" where
  "handleOpenModal mode t s =
     s\<lparr> modal := \<lparr> modal_isOpen = True, modal_mode = mode, modal_todo = t \<rparr> \<rparr>"

definition handleCloseDeleteModal :: "app \<Rightarrow> app" where
  "handleCloseDeleteModal s =
     s\<lparr> deleteModal := \<lparr> deleteModal_isOpen = False, deleteModal_id = None \<rparr> \<rparr>"

definition handleOpenDeleteModal :: "jsstring \<Rightarrow> app \<Rightarrow> app" where
  "handleOpenDeleteModal i s =
     s\<lparr> deleteModal := \<lparr> deleteModal_isOpen = True, deleteModal_id = Some i \<rparr> \<rparr>"

text \<open>\<open>uuid\<close> is the result of \<open>crypto.randomUUID()\<close>.\<close>

definition handleAddTodo :: "jsstring \<Rightarrow> jsstring \<Rightarrow> jsstring \<Rightarrow> app \<Rightarrow> app" where
  "handleAddTodo uuid txt priority s =
     (let newTodo = \<lparr> todo_id = uuid, todo_text = trim txt, todo_done = False,
                      todo_priority = priority \<rparr>
      in showToast (js ''Task added!'') (setTodos (\<lambda>currentTodos. newTodo # currentTodos) s))"

definition handleUpdateTodo :: "jsstring \<Rightarrow> newData \<Rightarrow> app \<Rightarrow> app" where
  "handleUpdateTodo i d s =
     showToast (js ''Task updated!'')
       (setTodos (\<lambda>currentTodos. map (\<lambda>t. if todo_id t = i then spread t d else t) currentTodos) s)"

definition handleDeleteTodo :: "jsstring \<Rightarrow> app \<Rightarrow> app" where
  "handleDeleteTodo i s =
     showToast (js ''Task deleted.'')
       (handleCloseDeleteModal
          (setTodos (\<lambda>currentTodos. filter (\<lambda>t. todo_id t \<noteq> i) currentTodos) s))"

definition handleToggleDone :: "jsstring \<Rightarrow> app \<Rightarrow> app" where
  "handleToggleDone i s =
     (case find (\<lambda>t. todo_id t = i) (todos s) of
        None \<Rightarrow> s
      | Some t \<Rightarrow>
          handleUpdateTodo i
            \<lparr> new_text = None, new_done = Some (\<not> todo_done t), new_priority = None \<rparr> s)"

text \<open>
  \<open>handleSubmit\<close> of \<open>AddEditModal\<close>; \<open>txt\<close> and \<open>priority\<close> are the two fields of the
  form. In edit mode \<open>modal.todo.id\<close> is read: a TypeError when \<open>modal.todo\<close> is null.
\<close>

datatype error = TypeError

definition handleSubmit :: "jsstring \<Rightarrow> jsstring \<Rightarrow> jsstring \<Rightarrow> app \<Rightarrow> error + app" where
  "handleSubmit uuid txt priority s =
     (if trim txt = [] then Inr s
      else if modal_mode (modal s) = js ''edit'' then
        (case modal_todo (modal s) of
           None \<Rightarrow> Inl TypeError
         | Some t \<Rightarrow>
             Inr (handleCloseModal
                    (handleUpdateTodo (todo_id t)
                       \<lparr> new_text = Some txt, new_done = None,
                         new_priority = Some priority \<rparr> s)))
      else Inr (handleCloseModal (handleAddTodo uuid txt priority s)))"





definition unique_ids :: "todo list \<Rightarrow> bool" where
  "unique_ids ts = distinct (map todo_id ts)"

section \<open>The filter\<close>

text \<open>
  The body of the \<open>useMemo\<close> that computes \<open>filteredTodos\<close>. A non-empty string is
  truthy.
\<close>

definition filteredTodos ::
  "(jsstring \<Rightarrow> jsstring) \<Rightarrow> todo list \<Rightarrow> jsstring \<Rightarrow> jsstring \<Rightarrow> todo list" where
  "filteredTodos toLowerCase ts flt debouncedSearchTerm =
     filter (\<lambda>t.
       if flt = js ''active'' \<and> todo_done t then False
       else if flt = js ''completed'' \<and> \<not> todo_done t then False
       else if debouncedSearchTerm \<noteq> [] \<and>
               \<not> includes_js (toLowerCase (todo_text t)) (toLowerCase debouncedSearchTerm)
            then False
       else True) ts"

text \<open>
  The filter as the specification words it: a status filter out of all, active and
  completed, a search predicate that is substring containment after lowering both
  sides, satisfied by every task when the term is empty, and the conjunction of both.
\<close>

datatype statusFilter = Status_all | Status_active | Status_completed

fun statusFilter_name :: "statusFilter \<Rightarrow> jsstring" where
  "statusFilter_name Status_all = js ''all''"
| "statusFilter_name Status_active = js ''active''"
| "statusFilter_name Status_completed = js ''completed''"

fun status_keeps :: "statusFilter \<Rightarrow> todo \<Rightarrow> bool" where
  "status_keeps Status_all t = True"
| "status_keeps Status_active t = (todo_done t = False)"
| "status_keeps Status_completed t = (todo_done t = True)"

definition substring_of :: "jsstring \<Rightarrow> jsstring \<Rightarrow> bool" where
  "substring_of sub s = (\<exists>before after. s = before @ sub @ after)"

definition search_matches :: "(jsstring \<Rightarrow> jsstring) \<Rightarrow> jsstring \<Rightarrow> todo \<Rightarrow> bool" where
  "search_matches toLowerCase searchTerm t =
     (searchTerm = [] \<or> substring_of (toLowerCase searchTerm) (toLowerCase (todo_text t)))"

definition visible ::
  "(jsstring \<Rightarrow> jsstring) \<Rightarrow> todo list \<Rightarrow> statusFilter \<Rightarrow> jsstring \<Rightarrow> todo list" where
  "visible toLowerCase tasks statusFilter searchTerm =
     filter (\<lambda>t. status_keeps statusFilter t \<and> search_matches toLowerCase searchTerm t) tasks"

section \<open>The debouncer\<close>

text \<open>
  The state of one \<open>useDebounce\<close> hook, with time in milliseconds: the state variable
  \<open>debouncedValue\<close>; \<open>handler\<close>, the timeout that is pending, as the time it is due and
  the value its callback captured; \<open>deps\<close>, the dependency array \<open>[value, delay]\<close> of
  the last run of the effect; \<open>calls\<close>, the calls of \<open>setDebouncedValue\<close> made so
  far, each with its time. A timeout fires at the time it is due.
\<close>

record 'a debounce =
  debouncedValue :: 'a
  handler :: "(nat \<times> 'a) option"
  deps :: "'a \<times> nat"
  calls :: "(nat \<times> 'a) list"

text \<open>First render: \<open>useState(value)\<close>, then the effect sets the timeout.\<close>

definition useDebounce_mount :: "nat \<Rightarrow> 'a \<Rightarrow> nat \<Rightarrow> 'a debounce" where
  "useDebounce_mount now v delay =
     \<lparr> debouncedValue = v, handler = Some (now + delay, v), deps = (v, delay), calls = [] \<rparr>"

text \<open>
  A later render: when \<open>[value, delay]\<close> changed, the cleanup clears the pending timeout
  and the effect sets a new one; otherwise the effect does not run.
\<close>

definition useDebounce_render :: "nat \<Rightarrow> 'a \<Rightarrow> nat \<Rightarrow> 'a debounce \<Rightarrow> 'a debounce" where
  "useDebounce_render now v delay s =
     (if deps s = (v, delay) then s
      else s\<lparr> handler := Some (now + delay, v), deps := (v, delay) \<rparr>)"

text \<open>Time passes until \<open>now\<close>: a timeout that is due runs \<open>setDebouncedValue(value)\<close>.\<close>

definition elapse :: "nat \<Rightarrow> 'a debounce \<Rightarrow> 'a debounce" where
  "elapse now s =
     (case handler s of
        None \<Rightarrow> s
      | Some (due, v) \<Rightarrow>
          if due \<le> now
          then s\<lparr> debouncedValue := v, handler := None, calls := calls s @ [(due, v)] \<rparr>
          else s)"

text \<open>Unmount: the cleanup clears the pending timeout.\<close>

definition useDebounce_unmount :: "'a debounce \<Rightarrow> 'a debounce" where
  "useDebounce_unmount s = s\<lparr> handler := None \<rparr>"

text \<open>
  An input \<open>(t, v)\<close>: at time \<open>t\<close> the component renders with the value \<open>v\<close>; a
  timeout that is due by then has fired before.
  \<open>state_at\<close> is the hook at time \<open>T\<close>, after the inputs up to \<open>T\<close>, and \<open>output_at\<close>
  the value it returns then.
\<close>

definition feed :: "nat \<Rightarrow> nat \<times> 'a \<Rightarrow> 'a debounce \<Rightarrow> 'a debounce" where
  "feed delay e s = useDebounce_render (fst e) (snd e) delay (elapse (fst e) s)"

definition state_at :: "nat \<Rightarrow> nat \<Rightarrow> (nat \<times> 'a) list \<Rightarrow> 'a debounce \<Rightarrow> 'a debounce" where
  "state_at delay T inputs s =
     elapse T (fold (feed delay) (filter (\<lambda>e. fst e \<le> T) inputs) s)"

definition output_at :: "nat \<Rightarrow> nat \<Rightarrow> (nat \<times> 'a) list \<Rightarrow> 'a debounce \<Rightarrow> 'a" where
  "output_at delay T inputs s = debouncedValue (state_at delay T inputs s)"

text \<open>
  The values a hook can still show: its output and the value its pending timeout
  captured lie in \<open>H\<close>.
\<close>

definition within :: "'a set \<Rightarrow> 'a debounce \<Rightarrow> bool" where
  "within H s =
     (debouncedValue s \<in> H \<and> (case handler s of None \<Rightarrow> True | Some (due, v) \<Rightarrow> v \<in> H))"

section \<open>Concrete states\<close>

definition demo_todos :: "todo list" where
  "demo_todos = initialTodos (js ''u1'') (js ''u2'')"

definition demo_app :: app where
  "demo_app =
     \<lparr> todos = demo_todos, storage = None, writable = True,
       toast = \<lparr> isShow = False, message = [] \<rparr>,
       modal = \<lparr> modal_isOpen = False, modal_mode = js ''new'', modal_todo = None \<rparr>,
       deleteModal = \<lparr> deleteModal_isOpen = False, deleteModal_id = None \<rparr> \<rparr>"

text \<open>The search box at rest: the hook returns the empty string, no timeout is pending.\<close>

definition demo_search :: "jsstring debounce" where
  "demo_search = \<lparr> debouncedValue = [], handler = None, deps = ([], 400), calls = [] \<rparr>"

definition milk_todos :: "todo list" where
  "milk_todos =
     [ \<lparr> todo_id = js ''a'', todo_text = js ''Buy milk'', todo_done = False,
         todo_priority = js ''high'' \<rparr>,
       \<lparr> todo_id = js ''b'', todo_text = js ''Walk'', todo_done = True,
         todo_priority = js ''low'' \<rparr>,
       \<lparr> todo_id = js ''c'', todo_text = js ''Milk the cow'', todo_done = True,
         todo_priority = js ''normal'' \<rparr> ]"


text \<open>A collection in which two records carry the same id, as \<open>localStorage\<close> can hold it.\<close>

definition dup_todos :: "todo list" where
  "dup_todos =
     [ \<lparr> todo_id = js ''a'', todo_text = js ''one'', todo_done = False,
         todo_priority = js ''normal'' \<rparr>,
       \<lparr> todo_id = js ''b'', todo_text = js ''two'', todo_done = False,
         todo_priority = js ''low'' \<rparr>,
       \<lparr> todo_id = js ''a'', todo_text = js ''three'', todo_done = True,
         todo_priority = js ''high'' \<rparr> ]"

definition dup_app :: app where
  "dup_app = demo_app\<lparr> todos := dup_todos \<rparr>"

definition demo_edit :: app where
  "demo_edit = handleOpenModal (js ''edit'') (Some (hd demo_todos)) demo_app"

section \<open>Facts about strings\<close>

lemma trim_Nil_iff: "trim s = [] \<longleftrightarrow> (\<forall>c \<in> set s. is_whitespace c)"
proof -
  have "trim s = [] \<longleftrightarrow> (\<forall>c \<in> set (dropWhile is_whitespace s). is_whitespace c)"
    by (simp add: trim_def dropWhile_eq_Nil_conv)
  also have "\<dots> \<longleftrightarrow> dropWhile is_whitespace s = []"
  proof
    assume a: "\<forall>c \<in> set (dropWhile is_whitespace s). is_whitespace c"
    show "dropWhile is_whitespace s = []"
    proof (rule ccontr)
      assume "dropWhile is_whitespace s \<noteq> []"
      then have "\<not> is_whitespace (hd (dropWhile is_whitespace s))"
        by (rule hd_dropWhile)
      moreover have "hd (dropWhile is_whitespace s) \<in> set (dropWhile is_whitespace s)"
        using \<open>dropWhile is_whitespace s \<noteq> []\<close> by simp
      ultimately show False using a by blast
    qed
  qed (auto dest: set_dropWhileD)
  also have "\<dots> \<longleftrightarrow> (\<forall>c \<in> set s. is_whitespace c)"
    by (rule dropWhile_eq_Nil_conv)
  finally show ?thesis .
qed

lemma startsWith_iff: "startsWith s sub \<longleftrightarrow> (\<exists>ss. s = sub @ ss)"
proof
  assume "startsWith s sub"
  then have "s = sub @ drop (length sub) s"
    by (metis append_take_drop_id startsWith_def)
  then show "\<exists>ss. s = sub @ ss" ..
next
  assume "\<exists>ss. s = sub @ ss"
  then show "startsWith s sub" by (auto simp: startsWith_def)
qed

lemma includes_js_iff: "includes_js s sub \<longleftrightarrow> (\<exists>ps ss. s = ps @ sub @ ss)"
proof (induction s)
  case Nil
  show ?case by auto
next
  case (Cons c cs)
  show ?case
  proof
    assume "includes_js (c # cs) sub"
    then consider "startsWith (c # cs) sub" | "includes_js cs sub" by auto
    then show "\<exists>ps ss. c # cs = ps @ sub @ ss"
    proof cases
      case 1
      then obtain ss where "c # cs = sub @ ss" by (auto simp: startsWith_iff)
      then have "c # cs = [] @ sub @ ss" by simp
      then show ?thesis by blast
    next
      case 2
      then obtain ps ss where "cs = ps @ sub @ ss" using Cons.IH by auto
      then have "c # cs = (c # ps) @ sub @ ss" by simp
      then show ?thesis by blast
    qed
  next
    assume "\<exists>ps ss. c # cs = ps @ sub @ ss"
    then obtain ps ss where eq: "c # cs = ps @ sub @ ss" by auto
    show "includes_js (c # cs) sub"
    proof (cases ps)
      case Nil
      then have "startsWith (c # cs) sub" using eq by (auto simp: startsWith_iff)
      then show ?thesis by simp
    next
      case (Cons p ps')
      then have "cs = ps' @ sub @ ss" using eq by simp
      then have "includes_js cs sub" using Cons.IH by blast
      then show ?thesis by simp
    qed
  qed
qed

lemma trim_buy_milk: "trim (js '' Buy milk '') = js ''Buy milk''"
  by (simp add: trim_def js_def is_whitespace_def whitespace_def)

section \<open>What the handlers do to the collection\<close>

lemma todos_setTodos: "todos (setTodos f s) = f (todos s)"
  by (simp add: setTodos_def Let_def)

lemma todos_showToast: "todos (showToast m s) = todos s"
  by (simp add: showToast_def)

lemma todos_handleCloseModal: "todos (handleCloseModal s) = todos s"
  by (simp add: handleCloseModal_def)

lemma todos_handleCloseDeleteModal: "todos (handleCloseDeleteModal s) = todos s"
  by (simp add: handleCloseDeleteModal_def)

lemma todos_handleAddTodo:
  "todos (handleAddTodo uuid txt priority s) =
     \<lparr> todo_id = uuid, todo_text = trim txt, todo_done = False, todo_priority = priority \<rparr> # todos s"
  by (simp add: handleAddTodo_def Let_def todos_showToast todos_setTodos)

lemma todos_handleUpdateTodo:
  "todos (handleUpdateTodo i d s) = map (\<lambda>t. if todo_id t = i then spread t d else t) (todos s)"
  by (simp add: handleUpdateTodo_def todos_showToast todos_setTodos)

lemma todos_handleDeleteTodo:
  "todos (handleDeleteTodo i s) = filter (\<lambda>t. todo_id t \<noteq> i) (todos s)"
  by (simp add: handleDeleteTodo_def todos_showToast todos_setTodos todos_handleCloseDeleteModal)

lemma find_None_absent: "find (\<lambda>t. todo_id t = i) ts = None \<longleftrightarrow> i \<notin> todo_id ` set ts"
  by (auto simp: find_None_iff)

lemma map_update_absent:
  "i \<notin> todo_id ` set ts \<Longrightarrow> map (\<lambda>t. if todo_id t = i then f t else t) ts = ts"
  by (induction ts) auto

lemma filter_absent:
  "i \<notin> todo_id ` set ts \<Longrightarrow> filter (\<lambda>t. todo_id t \<noteq> i) ts = ts"
  by (induction ts) auto

lemma spread_done_only:
  "spread r \<lparr> new_text = None, new_done = Some b, new_priority = None \<rparr> = r\<lparr> todo_done := b \<rparr>"
  by (simp add: spread_def)

lemma todo_id_spread: "todo_id (spread t d) = todo_id t"
  by (simp add: spread_def)

lemma ids_handleUpdateTodo:
  "map todo_id (todos (handleUpdateTodo i d s)) = map todo_id (todos s)"
proof -
  have "\<And>ts. map todo_id (map (\<lambda>t. if todo_id t = i then spread t d else t) ts) = map todo_id ts"
    by (simp add: todo_id_spread)
  then show ?thesis by (simp only: todos_handleUpdateTodo)
qed

lemma todos_handleToggleDone:
  "todos (handleToggleDone i s) =
     (case find (\<lambda>t. todo_id t = i) (todos s) of
        None \<Rightarrow> todos s
      | Some t \<Rightarrow> map (\<lambda>r. if todo_id r = i then r\<lparr> todo_done := \<not> todo_done t \<rparr> else r) (todos s))"
  by (simp add: handleToggleDone_def todos_handleUpdateTodo spread_done_only split: option.split)

lemma find_map_set_done:
  "find (\<lambda>t. todo_id t = i) ts = Some t \<Longrightarrow>
   find (\<lambda>t. todo_id t = i) (map (\<lambda>r. if todo_id r = i then r\<lparr> todo_done := b \<rparr> else r) ts)
     = Some (t\<lparr> todo_done := b \<rparr>)"
  by (induction ts) (auto split: if_splits)

lemma set_done_twice:
  "map (\<lambda>r. if todo_id r = i then r\<lparr> todo_done := b \<rparr> else r)
     (map (\<lambda>r. if todo_id r = i then r\<lparr> todo_done := c \<rparr> else r) ts)
   = map (\<lambda>r. if todo_id r = i then r\<lparr> todo_done := b \<rparr> else r) ts"
  by (induction ts) auto

lemma set_done_other_fields:
  "map (\<lambda>r. (todo_id r, todo_text r, todo_priority r))
     (map (\<lambda>r. if todo_id r = i then r\<lparr> todo_done := b \<rparr> else r) ts)
   = map (\<lambda>r. (todo_id r, todo_text r, todo_priority r)) ts"
  by (induction ts) auto

lemma set_done_other_records:
  "filter (\<lambda>r. todo_id r \<noteq> i) (map (\<lambda>r. if todo_id r = i then r\<lparr> todo_done := b \<rparr> else r) ts)
   = filter (\<lambda>r. todo_id r \<noteq> i) ts"
  by (induction ts) auto

lemma toggle_twice_todos:
  assumes "find (\<lambda>t. todo_id t = i) (todos s) = Some t"
  shows "todos (handleToggleDone i (handleToggleDone i s)) =
           map (\<lambda>r. if todo_id r = i then r\<lparr> todo_done := todo_done t \<rparr> else r) (todos s)"
proof -
  let ?f = "\<lambda>b r. if todo_id r = i then r\<lparr> todo_done := b \<rparr> else r"
  have one: "todos (handleToggleDone i s) = map (?f (\<not> todo_done t)) (todos s)"
    using assms by (simp add: todos_handleToggleDone)
  have found: "find (\<lambda>t. todo_id t = i) (todos (handleToggleDone i s))
                 = Some (t\<lparr> todo_done := \<not> todo_done t \<rparr>)"
    unfolding one using assms by (rule find_map_set_done)
  have "todos (handleToggleDone i (handleToggleDone i s))
          = map (?f (todo_done t)) (map (?f (\<not> todo_done t)) (todos s))"
    using found by (simp add: todos_handleToggleDone [of i "handleToggleDone i s"] one)
  also have "\<dots> = map (?f (todo_done t)) (todos s)"
    by (rule set_done_twice)
  finally show ?thesis .
qed

lemma find_Some_D: "find P ts = Some t \<Longrightarrow> t \<in> set ts \<and> P t"
  by (induction ts) (auto split: if_splits)

lemma set_done_same_when_unique:
  assumes "distinct (map todo_id ts)" "t \<in> set ts" "todo_id t = i"
  shows "map (\<lambda>r. if todo_id r = i then r\<lparr> todo_done := todo_done t \<rparr> else r) ts = ts"
proof -
  have inj: "inj_on todo_id (set ts)"
    using assms(1) by (simp add: distinct_map)
  have "\<And>r. r \<in> set ts \<Longrightarrow> todo_id r = i \<Longrightarrow> r = t"
    using inj assms(2,3) by (auto dest: inj_onD)
  then have "\<And>r. r \<in> set ts \<Longrightarrow> (if todo_id r = i then r\<lparr> todo_done := todo_done t \<rparr> else r) = r"
    by auto
  then show ?thesis by (simp add: map_idI)
qed

lemma demo_todos_eq:
  "todos demo_app =
     [ \<lparr> todo_id = js ''u1'', todo_text = js ''Learn React Hooks'', todo_done = False,
         todo_priority = js ''normal'' \<rparr>,
       \<lparr> todo_id = js ''u2'', todo_text = js ''Do morning exercise'', todo_done = True,
         todo_priority = js ''low'' \<rparr> ]"
  by (simp add: demo_app_def demo_todos_def initialTodos_def)

lemma dup_todos_eq: "todos dup_app = dup_todos"
  by (simp add: dup_app_def)

lemma map_update_nth:
  "k < length ts \<Longrightarrow>
   map (\<lambda>t. if todo_id t = i then f t else t) ts ! k
     = (if todo_id (ts ! k) = i then f (ts ! k) else ts ! k)"
  by simp

lemma useLocalStorage_init_default:
  assumes "r = Throws \<or> r = Null \<or> r = Item [] \<or> (\<exists>item. r = Item item \<and> parse item = None)"
  shows "useLocalStorage_init parse r initialValue = initialValue"
  using assms by (auto simp: useLocalStorage_init_def)

section \<open>Adding a task\<close>

text \<open>
  Claim C2. For every collection, every priority and every text whose trim is empty
  (the empty string among them), the add operation leaves the collection unchanged: no
  record is created or persisted. The add operation is the form's \<open>handleSubmit\<close>,
  which holds the guard; it returns before any handler runs, so the whole state, the
  collection and the stored entry included, is the one before.
\<close>

theorem add_blank_text_is_noop:
  assumes "trim txt = []"
  shows "handleSubmit uuid txt priority s = Inr s"
  using assms by (simp add: handleSubmit_def)

theorem add_blank_text_is_noop_witness:
  "trim (js '' '') = [] \<and> handleSubmit (js ''u3'') (js '' '') (js ''high'') demo_app = Inr demo_app
   \<and> trim [] = [] \<and> handleSubmit (js ''u3'') [] (js ''low'') demo_app = Inr demo_app"
proof -
  have a: "trim (js '' '') = []"
    by (simp add: trim_def js_def is_whitespace_def whitespace_def)
  have b: "trim [] = []"
    by (simp add: trim_def)
  show ?thesis
    using a b add_blank_text_is_noop [OF a, of "js ''u3''" "js ''high''" demo_app]
      add_blank_text_is_noop [OF b, of "js ''u3''" "js ''low''" demo_app]
    by simp
qed

text \<open>
  The guard is in \<open>handleSubmit\<close> only: \<open>handleAddTodo\<close> itself, which the program
  never calls with such a text, would prepend a record with the empty text.
\<close>

lemma handleAddTodo_unguarded:
  "todos (handleAddTodo (js ''u3'') [] (js ''low'') demo_app) =
     \<lparr> todo_id = js ''u3'', todo_text = [], todo_done = False, todo_priority = js ''low'' \<rparr>
       # todos demo_app"
  by (simp add: todos_handleAddTodo trim_def)




section \<open>Updating, removing and toggling\<close>

text \<open>
  Claim C4, as stated: the update merges \<open>newData\<close> into that record only. The
  collection is read from \<open>localStorage\<close> as it is, and when two of its records carry
  the id the update merges into both: here the first and the third record get the new
  text.
\<close>

theorem update_merges_both_counterexample:
  "map todo_id (todos dup_app) = [js ''a'', js ''b'', js ''a'']
   \<and> map todo_text (todos dup_app) = [js ''one'', js ''two'', js ''three'']
   \<and> map todo_text
        (todos (handleUpdateTodo (js ''a'')
                  \<lparr> new_text = Some (js ''x''), new_done = None, new_priority = None \<rparr> dup_app))
       = [js ''x'', js ''two'', js ''x'']"
  by (simp add: todos_handleUpdateTodo dup_todos_eq dup_todos_def spread_def) (simp add: js_def)

text \<open>
  Claim C4, amended. For every collection and every \<open>newData\<close>, the update merges
  \<open>newData\<close> into every record that carries the given id, which is that record only
  when no other record carries the id; it preserves the id of every record, leaves
  every record with another id unchanged, and preserves the length and the order of
  the collection. Merging replaces the fields that \<open>newData\<close> holds and keeps the
  others.
\<close>

theorem update_merges_by_id:
  "length (todos (handleUpdateTodo i d s)) = length (todos s)
   \<and> (\<forall>k < length (todos s).
        todos (handleUpdateTodo i d s) ! k
          = (if todo_id (todos s ! k) = i then spread (todos s ! k) d else todos s ! k))
   \<and> map todo_id (todos (handleUpdateTodo i d s)) = map todo_id (todos s)
   \<and> (todos s = xs @ t # ys \<and> todo_id t = i \<and> i \<notin> todo_id ` set xs \<and> i \<notin> todo_id ` set ys
        \<longrightarrow> todos (handleUpdateTodo i d s) = xs @ spread t d # ys)
   \<and> todo_id (spread t d) = todo_id t
   \<and> todo_text (spread t d) = (case new_text d of None \<Rightarrow> todo_text t | Some v \<Rightarrow> v)
   \<and> todo_done (spread t d) = (case new_done d of None \<Rightarrow> todo_done t | Some v \<Rightarrow> v)
   \<and> todo_priority (spread t d)
       = (case new_priority d of None \<Rightarrow> todo_priority t | Some v \<Rightarrow> v)"
proof -
  have a: "length (todos (handleUpdateTodo i d s)) = length (todos s)"
    by (simp add: todos_handleUpdateTodo)
  have b: "\<forall>k < length (todos s).
        todos (handleUpdateTodo i d s) ! k
          = (if todo_id (todos s ! k) = i then spread (todos s ! k) d else todos s ! k)"
    by (simp add: todos_handleUpdateTodo)
  have c: "map todo_id (todos (handleUpdateTodo i d s)) = map todo_id (todos s)"
    by (rule ids_handleUpdateTodo)
  have e: "todos s = xs @ t # ys \<and> todo_id t = i \<and> i \<notin> todo_id ` set xs \<and> i \<notin> todo_id ` set ys
        \<longrightarrow> todos (handleUpdateTodo i d s) = xs @ spread t d # ys"
    by (simp add: todos_handleUpdateTodo map_update_absent)
  have f: "todo_id (spread t d) = todo_id t
     \<and> todo_text (spread t d) = (case new_text d of None \<Rightarrow> todo_text t | Some v \<Rightarrow> v)
     \<and> todo_done (spread t d) = (case new_done d of None \<Rightarrow> todo_done t | Some v \<Rightarrow> v)
     \<and> todo_priority (spread t d)
         = (case new_priority d of None \<Rightarrow> todo_priority t | Some v \<Rightarrow> v)"
    by (simp add: spread_def)
  show ?thesis using a b c e f by blast
qed

theorem update_merges_by_id_witness:
  "todos (handleUpdateTodo (js ''u2'')
            \<lparr> new_text = Some (js ''Walk''), new_done = None, new_priority = Some (js ''high'') \<rparr>
            demo_app)
     = [ \<lparr> todo_id = js ''u1'', todo_text = js ''Learn React Hooks'', todo_done = False,
           todo_priority = js ''normal'' \<rparr>,
         \<lparr> todo_id = js ''u2'', todo_text = js ''Walk'', todo_done = True,
           todo_priority = js ''high'' \<rparr> ]
   \<and> todos (handleUpdateTodo (js ''a'')
              \<lparr> new_text = Some (js ''x''), new_done = None, new_priority = None \<rparr> dup_app) ! 2
     = \<lparr> todo_id = js ''a'', todo_text = js ''x'', todo_done = True,
         todo_priority = js ''high'' \<rparr>"
proof -
  let ?t1 = "\<lparr> todo_id = js ''u1'', todo_text = js ''Learn React Hooks'', todo_done = False,
               todo_priority = js ''normal'' \<rparr>"
  let ?t2 = "\<lparr> todo_id = js ''u2'', todo_text = js ''Do morning exercise'', todo_done = True,
               todo_priority = js ''low'' \<rparr>"
  let ?d = "\<lparr> new_text = Some (js ''Walk''), new_done = None, new_priority = Some (js ''high'') \<rparr>"
  let ?e = "\<lparr> new_text = Some (js ''x''), new_done = None, new_priority = None \<rparr>"
  have h: "todos demo_app = [?t1] @ ?t2 # [] \<and> todo_id ?t2 = js ''u2''
             \<and> js ''u2'' \<notin> todo_id ` set [?t1] \<and> js ''u2'' \<notin> todo_id ` set ([] :: todo list)"
    by (simp add: demo_todos_eq) (simp add: js_def)
  have a: "todos (handleUpdateTodo (js ''u2'') ?d demo_app)
     = [ ?t1, \<lparr> todo_id = js ''u2'', todo_text = js ''Walk'', todo_done = True,
                todo_priority = js ''high'' \<rparr> ]"
    using update_merges_by_id [of "js ''u2''" ?d demo_app "[?t1]" ?t2 "[]",
        THEN conjunct2, THEN conjunct2, THEN conjunct2, THEN conjunct1, rule_format, OF h]
    by (simp add: spread_def)
  have k: "2 < length (todos dup_app)"
    by (simp add: dup_todos_eq dup_todos_def)
  have b: "todos (handleUpdateTodo (js ''a'') ?e dup_app) ! 2
     = \<lparr> todo_id = js ''a'', todo_text = js ''x'', todo_done = True,
         todo_priority = js ''high'' \<rparr>"
    using update_merges_by_id [of "js ''a''" ?e dup_app, THEN conjunct2, THEN conjunct1,
        rule_format, OF k]
    by (simp add: dup_todos_eq dup_todos_def spread_def)
  show ?thesis using a b by blast
qed

text \<open>
  Claim C5, as stated: with an id that is not in the collection, update and remove are
  silently ignored no-ops. They are not: both write the collection to the store and
  show their confirmation message. On the seeded state, where nothing is stored and no
  toast is shown, the update and the removal of the unknown id "zz" leave a stored
  entry and a toast.
\<close>

theorem unknown_id_not_silent_counterexample:
  "js ''zz'' \<notin> todo_id ` set (todos demo_app)
   \<and> storage demo_app = None
   \<and> toast demo_app = \<lparr> isShow = False, message = [] \<rparr>
   \<and> storage (handleUpdateTodo (js ''zz'')
        \<lparr> new_text = Some (js ''x''), new_done = None, new_priority = None \<rparr> demo_app)
       = Some (todos demo_app)
   \<and> toast (handleUpdateTodo (js ''zz'')
        \<lparr> new_text = Some (js ''x''), new_done = None, new_priority = None \<rparr> demo_app)
       = \<lparr> isShow = True, message = js ''Task updated!'' \<rparr>
   \<and> storage (handleDeleteTodo (js ''zz'') demo_app) = Some (todos demo_app)
   \<and> toast (handleDeleteTodo (js ''zz'') demo_app)
       = \<lparr> isShow = True, message = js ''Task deleted.'' \<rparr>"
proof -
  have a: "js ''zz'' \<notin> todo_id ` set (todos demo_app)"
    by (simp add: demo_todos_eq) (simp add: js_def)
  have b: "storage demo_app = None" "toast demo_app = \<lparr> isShow = False, message = [] \<rparr>"
    "writable demo_app"
    by (simp_all add: demo_app_def)
  have m: "map (\<lambda>t. if todo_id t = js ''zz'' then f t else t) (todos demo_app) = todos demo_app" for f
    using a by (rule map_update_absent)
  have fl: "filter (\<lambda>t. todo_id t \<noteq> js ''zz'') (todos demo_app) = todos demo_app"
    using a by (rule filter_absent)
  show ?thesis
    using a b
    by (simp add: handleUpdateTodo_def handleDeleteTodo_def handleCloseDeleteModal_def
          showToast_def setTodos_def Let_def m fl)
qed

text \<open>
  Claim C5, amended. For every collection and every id that is not in it, update,
  remove and toggleDone leave the collection element-wise identical, and nothing is
  raised (the handlers are total). toggleDone changes nothing at all. update and
  remove are not silent: each writes the unchanged collection to the store, when the
  write succeeds, and shows its confirmation message, "Task updated!" or
  "Task deleted."; remove also closes the delete dialog. Nothing else changes, and no
  error message is shown.
\<close>

theorem unknown_id_keeps_collection:
  assumes "i \<notin> todo_id ` set (todos s)"
  shows "handleToggleDone i s = s
       \<and> todos (handleUpdateTodo i d s) = todos s
       \<and> todos (handleDeleteTodo i s) = todos s
       \<and> handleUpdateTodo i d s =
           s\<lparr> storage := (if writable s then Some (todos s) else storage s),
              toast := \<lparr> isShow = True, message = js ''Task updated!'' \<rparr> \<rparr>
       \<and> handleDeleteTodo i s =
           s\<lparr> storage := (if writable s then Some (todos s) else storage s),
              deleteModal := \<lparr> deleteModal_isOpen = False, deleteModal_id = None \<rparr>,
              toast := \<lparr> isShow = True, message = js ''Task deleted.'' \<rparr> \<rparr>"
proof -
  have "find (\<lambda>t. todo_id t = i) (todos s) = None"
    using assms by (simp add: find_None_absent)
  then have t: "handleToggleDone i s = s"
    by (simp add: handleToggleDone_def)
  have m: "map (\<lambda>t. if todo_id t = i then spread t d else t) (todos s) = todos s"
    using assms by (rule map_update_absent)
  have fl: "filter (\<lambda>t. todo_id t \<noteq> i) (todos s) = todos s"
    using assms by (rule filter_absent)
  have u: "handleUpdateTodo i d s =
           s\<lparr> storage := (if writable s then Some (todos s) else storage s),
              toast := \<lparr> isShow = True, message = js ''Task updated!'' \<rparr> \<rparr>"
    by (simp add: handleUpdateTodo_def showToast_def setTodos_def Let_def m)
  have r: "handleDeleteTodo i s =
           s\<lparr> storage := (if writable s then Some (todos s) else storage s),
              deleteModal := \<lparr> deleteModal_isOpen = False, deleteModal_id = None \<rparr>,
              toast := \<lparr> isShow = True, message = js ''Task deleted.'' \<rparr> \<rparr>"
    by (simp add: handleDeleteTodo_def handleCloseDeleteModal_def showToast_def setTodos_def
          Let_def fl)
  have "todos (handleUpdateTodo i d s) = todos s"
    by (simp add: todos_handleUpdateTodo m)
  moreover have "todos (handleDeleteTodo i s) = todos s"
    by (simp add: todos_handleDeleteTodo fl)
  ultimately show ?thesis using t u r by blast
qed

theorem unknown_id_keeps_collection_witness:
  "js ''zz'' \<notin> todo_id ` set (todos demo_app)
   \<and> handleToggleDone (js ''zz'') demo_app = demo_app
   \<and> todos (handleUpdateTodo (js ''zz'')
        \<lparr> new_text = Some (js ''x''), new_done = None, new_priority = None \<rparr> demo_app)
       = todos demo_app
   \<and> todos (handleDeleteTodo (js ''zz'') demo_app) = todos demo_app"
proof -
  have h: "js ''zz'' \<notin> todo_id ` set (todos demo_app)"
    by (simp add: demo_todos_eq) (simp add: js_def)
  note t = unknown_id_keeps_collection [OF h]
  show ?thesis
    using h t [THEN conjunct1] t [THEN conjunct2, THEN conjunct1]
      t [THEN conjunct2, THEN conjunct2, THEN conjunct1]
    by blast
qed

text \<open>
  Claim C7, as stated: after two toggles all other records are unchanged. When a
  second record carries the id, it is not: \<open>handleToggleDone\<close> reads the done field of
  the first record with the id and the update writes its negation into every record
  with the id. Here the third record is done before and not done after.
\<close>

theorem toggleDone_twice_changes_duplicate_counterexample:
  "map todo_id (todos dup_app) = [js ''a'', js ''b'', js ''a'']
   \<and> map todo_done (todos dup_app) = [False, False, True]
   \<and> map todo_done (todos (handleToggleDone (js ''a'') (handleToggleDone (js ''a'') dup_app)))
       = [False, False, False]"
proof -
  let ?t = "\<lparr> todo_id = js ''a'', todo_text = js ''one'', todo_done = False,
              todo_priority = js ''normal'' \<rparr>"
  have f: "find (\<lambda>r. todo_id r = js ''a'') (todos dup_app) = Some ?t"
    by (simp add: dup_todos_eq dup_todos_def)
  show ?thesis
    by (simp add: toggle_twice_todos [OF f]) (simp add: dup_todos_eq dup_todos_def js_def)
qed

text \<open>
  Claim C7, amended. For every collection containing a record with the given id,
  toggling twice returns the done field of the first record with that id (the one
  \<open>handleToggleDone\<close> looks up) to its original value, after the first toggle has
  inverted it; id, text and priority of every record and all records with another id
  are unchanged; every further record that carries the same id ends with the done
  value of the first one; and when the ids of the collection are unique the collection
  is the one before.
\<close>

theorem toggleDone_twice_restores:
  assumes "find (\<lambda>r. todo_id r = i) (todos s) = Some t"
  shows "find (\<lambda>r. todo_id r = i) (todos (handleToggleDone i s))
           = Some (t\<lparr> todo_done := \<not> todo_done t \<rparr>)
       \<and> find (\<lambda>r. todo_id r = i) (todos (handleToggleDone i (handleToggleDone i s))) = Some t
       \<and> map (\<lambda>r. (todo_id r, todo_text r, todo_priority r))
             (todos (handleToggleDone i (handleToggleDone i s)))
           = map (\<lambda>r. (todo_id r, todo_text r, todo_priority r)) (todos s)
       \<and> filter (\<lambda>r. todo_id r \<noteq> i) (todos (handleToggleDone i (handleToggleDone i s)))
           = filter (\<lambda>r. todo_id r \<noteq> i) (todos s)
       \<and> todos (handleToggleDone i (handleToggleDone i s))
           = map (\<lambda>r. if todo_id r = i then r\<lparr> todo_done := todo_done t \<rparr> else r) (todos s)
       \<and> (unique_ids (todos s) \<longrightarrow>
            todos (handleToggleDone i (handleToggleDone i s)) = todos s)"
proof -
  let ?two = "todos (handleToggleDone i (handleToggleDone i s))"
  have two: "?two = map (\<lambda>r. if todo_id r = i then r\<lparr> todo_done := todo_done t \<rparr> else r) (todos s)"
    using assms by (rule toggle_twice_todos)
  have c1: "find (\<lambda>r. todo_id r = i) (todos (handleToggleDone i s))
              = Some (t\<lparr> todo_done := \<not> todo_done t \<rparr>)"
    using assms find_map_set_done [OF assms] by (simp add: todos_handleToggleDone)
  have c2: "find (\<lambda>r. todo_id r = i) ?two = Some t"
    unfolding two using find_map_set_done [OF assms, of "todo_done t"] by simp
  have c3: "map (\<lambda>r. (todo_id r, todo_text r, todo_priority r)) ?two
              = map (\<lambda>r. (todo_id r, todo_text r, todo_priority r)) (todos s)"
    unfolding two by (rule set_done_other_fields)
  have c4: "filter (\<lambda>r. todo_id r \<noteq> i) ?two = filter (\<lambda>r. todo_id r \<noteq> i) (todos s)"
    unfolding two by (rule set_done_other_records)
  have c5: "unique_ids (todos s) \<longrightarrow> ?two = todos s"
    unfolding two unique_ids_def
    using find_Some_D [OF assms] by (auto intro: set_done_same_when_unique)
  show ?thesis using c1 c2 c3 c4 c5 two by blast
qed

theorem toggleDone_twice_restores_witness:
  "todos (handleToggleDone (js ''u1'') (handleToggleDone (js ''u1'') demo_app)) = todos demo_app
   \<and> find (\<lambda>r. todo_id r = js ''u1'') (todos (handleToggleDone (js ''u1'') demo_app))
       = Some \<lparr> todo_id = js ''u1'', todo_text = js ''Learn React Hooks'', todo_done = True,
                todo_priority = js ''normal'' \<rparr>"
proof -
  let ?t1 = "\<lparr> todo_id = js ''u1'', todo_text = js ''Learn React Hooks'', todo_done = False,
               todo_priority = js ''normal'' \<rparr>"
  have h: "find (\<lambda>r. todo_id r = js ''u1'') (todos demo_app) = Some ?t1"
    by (simp add: demo_todos_eq)
  have u: "unique_ids (todos demo_app)"
    by (simp add: unique_ids_def demo_todos_eq) (simp add: js_def)
  note t = toggleDone_twice_restores [OF h]
  have a: "find (\<lambda>r. todo_id r = js ''u1'') (todos (handleToggleDone (js ''u1'') demo_app))
       = Some \<lparr> todo_id = js ''u1'', todo_text = js ''Learn React Hooks'', todo_done = True,
                todo_priority = js ''normal'' \<rparr>"
    using t [THEN conjunct1] by simp
  have b: "todos (handleToggleDone (js ''u1'') (handleToggleDone (js ''u1'') demo_app))
             = todos demo_app"
    using u t [THEN conjunct2, THEN conjunct2, THEN conjunct2, THEN conjunct2, THEN conjunct2]
    by blast
  show ?thesis using a b by blast
qed

section \<open>The text of a task\<close>

text \<open>
  Claim C8. Every task has a text that is non-empty and trimmed, also after editing an
  existing task. The code does not keep this: \<open>handleSubmit\<close> tests \<open>text.trim()\<close> but
  in edit mode passes the untrimmed \<open>text\<close> to \<open>handleUpdateTodo\<close>, while the add
  path stores \<open>text.trim()\<close>. Editing the first seeded task to " Buy milk " stores the
  text with its spaces; adding the same text stores "Buy milk".
\<close>

theorem edit_keeps_untrimmed_text:
  "map_sum id (\<lambda>s. map todo_text (todos s))
     (handleSubmit (js ''u3'') (js '' Buy milk '') (js ''high'') demo_edit)
     = Inr [js '' Buy milk '', js ''Do morning exercise'']
   \<and> trim (js '' Buy milk '') \<noteq> js '' Buy milk ''
   \<and> map_sum id (\<lambda>s. map todo_text (todos s))
       (handleSubmit (js ''u3'') (js '' Buy milk '') (js ''high'') demo_app)
     = Inr [js ''Buy milk'', js ''Learn React Hooks'', js ''Do morning exercise'']"
proof -
  let ?d = "\<lparr> new_text = Some (js '' Buy milk ''), new_done = None,
              new_priority = Some (js ''high'') \<rparr>"
  have ne: "trim (js '' Buy milk '') \<noteq> []"
    by (simp add: trim_buy_milk) (simp add: js_def)
  have mode: "modal_mode (modal demo_edit) = js ''edit''"
    by (simp add: demo_edit_def handleOpenModal_def)
  have mtodo: "modal_todo (modal demo_edit) = Some (hd demo_todos)"
    by (simp add: demo_edit_def handleOpenModal_def)
  have tid: "todo_id (hd demo_todos) = js ''u1''"
    by (simp add: demo_todos_def initialTodos_def)
  have ts: "todos demo_edit = todos demo_app"
    by (simp add: demo_edit_def handleOpenModal_def)
  have sub: "handleSubmit (js ''u3'') (js '' Buy milk '') (js ''high'') demo_edit
               = Inr (handleCloseModal (handleUpdateTodo (js ''u1'') ?d demo_edit))"
    using ne by (simp add: handleSubmit_def mode mtodo tid)
  have upd: "map todo_text (todos (handleCloseModal (handleUpdateTodo (js ''u1'') ?d demo_edit)))
               = [js '' Buy milk '', js ''Do morning exercise'']"
    by (simp add: todos_handleCloseModal todos_handleUpdateTodo ts demo_todos_eq spread_def)
       (simp add: js_def)
  have a: "map_sum id (\<lambda>s. map todo_text (todos s))
             (handleSubmit (js ''u3'') (js '' Buy milk '') (js ''high'') demo_edit)
           = Inr [js '' Buy milk '', js ''Do morning exercise'']"
    by (simp only: sub map_sum.simps upd)
  have b: "trim (js '' Buy milk '') \<noteq> js '' Buy milk ''"
    by (simp add: trim_buy_milk) (simp add: js_def)
  have mn: "modal_mode (modal demo_app) \<noteq> js ''edit''"
    by (simp add: demo_app_def) (simp add: js_def)
  have subn: "handleSubmit (js ''u3'') (js '' Buy milk '') (js ''high'') demo_app
               = Inr (handleCloseModal (handleAddTodo (js ''u3'') (js '' Buy milk '') (js ''high'') demo_app))"
    using ne mn by (simp add: handleSubmit_def)
  have add: "map todo_text (todos (handleCloseModal
                (handleAddTodo (js ''u3'') (js '' Buy milk '') (js ''high'') demo_app)))
             = [js ''Buy milk'', js ''Learn React Hooks'', js ''Do morning exercise'']"
    by (simp add: todos_handleCloseModal todos_handleAddTodo demo_todos_eq trim_buy_milk)
  have c: "map_sum id (\<lambda>s. map todo_text (todos s))
             (handleSubmit (js ''u3'') (js '' Buy milk '') (js ''high'') demo_app)
           = Inr [js ''Buy milk'', js ''Learn React Hooks'', js ''Do morning exercise'']"
    by (simp only: subn map_sum.simps add)
  show ?thesis using a b c by blast
qed

section \<open>Initial collection\<close>

text \<open>
  Claim C10. When no valid value is persisted under the key (\<open>getItem\<close> returns null
  or throws, or the item is empty or does not parse), the collection starts as the two
  seeded tasks: "Learn React Hooks", not done, normal priority, then
  "Do morning exercise", done, low priority. It is not empty.
\<close>

theorem seeded_when_nothing_persisted:
  assumes "r = Throws \<or> r = Null \<or> r = Item [] \<or> (\<exists>item. r = Item item \<and> parse item = None)"
  shows "App_todos_init parse r u1 u2 =
           [ \<lparr> todo_id = u1, todo_text = js ''Learn React Hooks'', todo_done = False,
               todo_priority = js ''normal'' \<rparr>,
             \<lparr> todo_id = u2, todo_text = js ''Do morning exercise'', todo_done = True,
               todo_priority = js ''low'' \<rparr> ]
         \<and> App_todos_init parse r u1 u2 \<noteq> []"
  using useLocalStorage_init_default [OF assms, of "initialTodos u1 u2"]
  by (simp add: App_todos_init_def initialTodos_def)

theorem seeded_when_nothing_persisted_witness:
  "App_todos_init (\<lambda>item. None) (Item (js ''{not json'')) (js ''u1'') (js ''u2'') =
     [ \<lparr> todo_id = js ''u1'', todo_text = js ''Learn React Hooks'', todo_done = False,
         todo_priority = js ''normal'' \<rparr>,
       \<lparr> todo_id = js ''u2'', todo_text = js ''Do morning exercise'', todo_done = True,
         todo_priority = js ''low'' \<rparr> ]
   \<and> App_todos_init (\<lambda>item. Some []) Null (js ''u1'') (js ''u2'') \<noteq> []"
  using seeded_when_nothing_persisted [of "Item (js ''{not json'')" "\<lambda>item. None" "js ''u1''" "js ''u2''"]
    seeded_when_nothing_persisted [of Null "\<lambda>item. Some []" "js ''u1''" "js ''u2''"]
  by simp

lemma persisted_value_wins:
  "item \<noteq> [] \<Longrightarrow> parse item = Some v \<Longrightarrow> App_todos_init parse (Item item) u1 u2 = v"
  by (simp add: App_todos_init_def useLocalStorage_init_def)

section \<open>The visible tasks\<close>

lemma includes_js_substring: "includes_js s sub \<longleftrightarrow> substring_of sub s"
  by (simp add: includes_js_iff substring_of_def)

lemma status_names_differ:
  "js ''all'' \<noteq> js ''active''" "js ''all'' \<noteq> js ''completed''"
  "js ''active'' \<noteq> js ''completed''" "js ''completed'' \<noteq> js ''active''"
  by (simp_all add: js_def)

text \<open>
  Claim C6. For every task list, status filter and search term, the visible tasks are
  exactly the tasks that pass both predicates, in the input order: active keeps the
  tasks that are not done, completed those that are done, all keeps everything; the
  search predicate is substring containment of the lowered search term in the lowered
  text, and an empty search term matches every task.
\<close>

theorem filteredTodos_is_visible:
  "filteredTodos toLowerCase tasks (statusFilter_name st) searchTerm
     = visible toLowerCase tasks st searchTerm"
proof -
  have "\<And>t. (if statusFilter_name st = js ''active'' \<and> todo_done t then False
             else if statusFilter_name st = js ''completed'' \<and> \<not> todo_done t then False
             else if searchTerm \<noteq> [] \<and>
                     \<not> includes_js (toLowerCase (todo_text t)) (toLowerCase searchTerm)
                  then False
             else True)
          = (status_keeps st t \<and> search_matches toLowerCase searchTerm t)"
    by (cases st) (auto simp: status_names_differ search_matches_def includes_js_substring)
  then show ?thesis
    by (simp only: filteredTodos_def visible_def)
qed

lemma lower_milk: "toLowerCase_ascii (js ''MILK'') = js ''milk''"
  by (simp add: toLowerCase_ascii_def js_def)

theorem filteredTodos_is_visible_witness:
  "visible toLowerCase_ascii milk_todos Status_all (js ''MILK'')
     = [ \<lparr> todo_id = js ''a'', todo_text = js ''Buy milk'', todo_done = False,
           todo_priority = js ''high'' \<rparr>,
         \<lparr> todo_id = js ''c'', todo_text = js ''Milk the cow'', todo_done = True,
           todo_priority = js ''normal'' \<rparr> ]
   \<and> visible toLowerCase_ascii milk_todos Status_active []
     = [ \<lparr> todo_id = js ''a'', todo_text = js ''Buy milk'', todo_done = False,
           todo_priority = js ''high'' \<rparr> ]
   \<and> visible toLowerCase_ascii milk_todos Status_completed (js ''MILK'')
     = [ \<lparr> todo_id = js ''c'', todo_text = js ''Milk the cow'', todo_done = True,
           todo_priority = js ''normal'' \<rparr> ]"
proof -
  have a: "filteredTodos toLowerCase_ascii milk_todos (js ''all'') (js ''MILK'')
     = [ \<lparr> todo_id = js ''a'', todo_text = js ''Buy milk'', todo_done = False,
           todo_priority = js ''high'' \<rparr>,
         \<lparr> todo_id = js ''c'', todo_text = js ''Milk the cow'', todo_done = True,
           todo_priority = js ''normal'' \<rparr> ]"
    by (simp add: filteredTodos_def milk_todos_def toLowerCase_ascii_def js_def startsWith_def)
  have b: "filteredTodos toLowerCase_ascii milk_todos (js ''active'') []
     = [ \<lparr> todo_id = js ''a'', todo_text = js ''Buy milk'', todo_done = False,
           todo_priority = js ''high'' \<rparr> ]"
    by (simp add: filteredTodos_def milk_todos_def status_names_differ)
  have c: "filteredTodos toLowerCase_ascii milk_todos (js ''completed'') (js ''MILK'')
     = [ \<lparr> todo_id = js ''c'', todo_text = js ''Milk the cow'', todo_done = True,
           todo_priority = js ''normal'' \<rparr> ]"
    by (simp add: filteredTodos_def milk_todos_def toLowerCase_ascii_def js_def startsWith_def)
  show ?thesis
    using a b c
      filteredTodos_is_visible [of toLowerCase_ascii milk_todos Status_all "js ''MILK''"]
      filteredTodos_is_visible [of toLowerCase_ascii milk_todos Status_active "[]"]
      filteredTodos_is_visible [of toLowerCase_ascii milk_todos Status_completed "js ''MILK''"]
    by simp
qed

text \<open>A status string other than active and completed filters like all.\<close>

lemma filteredTodos_other_status:
  "flt \<noteq> js ''active'' \<Longrightarrow> flt \<noteq> js ''completed'' \<Longrightarrow>
   filteredTodos toLowerCase tasks flt [] = tasks"
  by (simp add: filteredTodos_def)

section \<open>Uniqueness of identifiers\<close>









section \<open>The debouncer over time\<close>

lemma within_mount: "v \<in> H \<Longrightarrow> within H (useDebounce_mount now v delay)"
  by (simp add: within_def useDebounce_mount_def)

lemma within_elapse: "within H s \<Longrightarrow> within H (elapse now s)"
  by (auto simp: within_def elapse_def split: option.splits prod.splits)

lemma within_render: "within H s \<Longrightarrow> v \<in> H \<Longrightarrow> within H (useDebounce_render now v delay s)"
  by (auto simp: within_def useDebounce_render_def split: option.splits)

lemma within_feed: "within H s \<Longrightarrow> snd e \<in> H \<Longrightarrow> within H (feed delay e s)"
  by (simp add: feed_def within_render within_elapse)

lemma within_fold_feed:
  "within H s \<Longrightarrow> snd ` set es \<subseteq> H \<Longrightarrow> within H (fold (feed delay) es s)"
  by (induction es arbitrary: s) (simp_all add: within_feed)

lemma output_is_historical:
  "output_at delay T inputs (useDebounce_mount t0 v0 delay)
     \<in> insert v0 (snd ` {e \<in> set inputs. fst e \<le> T})"
proof -
  let ?H = "insert v0 (snd ` {e \<in> set inputs. fst e \<le> T})"
  have "within ?H (useDebounce_mount t0 v0 delay)"
    by (simp add: within_mount)
  moreover have "snd ` set (filter (\<lambda>e. fst e \<le> T) inputs) \<subseteq> ?H"
    by auto
  ultimately have "within ?H (fold (feed delay) (filter (\<lambda>e. fst e \<le> T) inputs) (useDebounce_mount t0 v0 delay))"
    by (rule within_fold_feed)
  then have "within ?H (state_at delay T inputs (useDebounce_mount t0 v0 delay))"
    unfolding state_at_def by (rule within_elapse)
  then show ?thesis
    by (simp add: output_at_def within_def)
qed

lemma elapse_not_due:
  "handler s = Some (due, v) \<Longrightarrow> now < due \<Longrightarrow> elapse now s = s"
  by (simp add: elapse_def)

lemma deps_elapse: "deps (elapse now s) = deps s"
  by (simp add: elapse_def split: option.splits prod.splits)

lemma render_changed:
  "deps s \<noteq> (v, delay) \<Longrightarrow>
   useDebounce_render now v delay s = s\<lparr> handler := Some (now + delay, v), deps := (v, delay) \<rparr>"
  by (simp add: useDebounce_render_def)

lemma state_at_input_at_0:
  "state_at delay T ((0, v) # inputs) s = state_at delay T inputs (feed delay (0, v) s)"
  by (simp add: state_at_def)

text \<open>The hook waits with the timeout of A, due at 400; B comes at 100 and C at 150.\<close>

lemma later_inputs_state_at:
  assumes "handler s1 = Some (400, A)" and "deps s1 = (A, 400)" and "B \<noteq> C"
  shows "state_at 400 T [(100, B), (150, C)] s1 =
           (if T < 100 then s1
            else if T < 150 then
              s1\<lparr> handler := Some (if B = A then 400 else 500, B), deps := (B, 400) \<rparr>
            else if T < 550 then s1\<lparr> handler := Some (550, C), deps := (C, 400) \<rparr>
            else s1\<lparr> debouncedValue := C, handler := None, deps := (C, 400),
                      calls := calls s1 @ [(550, C)] \<rparr>)"
proof -
  define s2 where "s2 = s1\<lparr> handler := Some (if B = A then 400 else 500, B), deps := (B, 400) \<rparr>"
  define s3 where "s3 = s1\<lparr> handler := Some (550, C), deps := (C, 400) \<rparr>"
  have e1: "T < 400 \<Longrightarrow> elapse T s1 = s1" for T
    using assms(1) by (rule elapse_not_due)
  have r2: "useDebounce_render 100 B 400 s1 = s2"
  proof (cases "B = A")
    case True
    then have "s2 = s1"
      using assms(1,2) by (simp add: s2_def)
    then show ?thesis
      using True assms(2) by (simp add: useDebounce_render_def)
  next
    case False
    then show ?thesis
      using assms(2) by (simp add: useDebounce_render_def s2_def)
  qed
  have f2: "feed 400 (100, B) s1 = s2"
    using r2 by (simp add: feed_def e1)
  have e2: "T < 400 \<Longrightarrow> elapse T s2 = s2" for T
    by (rule elapse_not_due [of _ "if B = A then 400 else 500" B]) (simp_all add: s2_def)
  have "useDebounce_render 150 C 400 s2 = s3"
    using assms(3) by (simp add: useDebounce_render_def s2_def s3_def)
  then have f3: "feed 400 (150, C) s2 = s3"
    by (simp add: feed_def e2)
  have e3: "T < 550 \<Longrightarrow> elapse T s3 = s3"
    by (rule elapse_not_due [of _ 550 C]) (simp_all add: s3_def)
  have e4: "\<not> T < 550 \<Longrightarrow> elapse T s3 =
              s1\<lparr> debouncedValue := C, handler := None, deps := (C, 400),
                   calls := calls s1 @ [(550, C)] \<rparr>"
    by (simp add: elapse_def s3_def)
  consider "T < 100" | "100 \<le> T" "T < 150" | "150 \<le> T" "T < 550" | "550 \<le> T" by linarith
  then show ?thesis
  proof cases
    case 1
    then show ?thesis
      using e1 [of T] by (simp add: state_at_def)
  next
    case 2
    then show ?thesis
      using e2 [of T] by (simp add: state_at_def f2 s2_def [symmetric])
  next
    case 3
    then show ?thesis
      using e3 by (simp add: state_at_def f2 f3 s3_def [symmetric])
  next
    case 4
    then show ?thesis
      using e4 by (simp add: state_at_def f2 f3)
  qed
qed

lemma later_inputs_output:
  assumes "handler s1 = Some (400, A)" and "deps s1 = (A, 400)" and "B \<noteq> C"
  shows "debouncedValue (state_at 400 T [(100, B), (150, C)] s1)
           = (if T < 550 then debouncedValue s1 else C)"
    and "calls (state_at 400 T [(100, B), (150, C)] s1)
           = calls s1 @ (if T < 550 then [] else [(550, C)])"
  by (simp_all add: later_inputs_state_at [OF assms])

lemma mounted_with_first_input:
  assumes "B \<noteq> C"
  shows "output_at 400 T [(100, B), (150, C)] (useDebounce_mount 0 A 400)
           = (if T < 550 then A else C)"
    and "calls (state_at 400 T [(100, B), (150, C)] (useDebounce_mount 0 A 400))
           = (if T < 550 then [] else [(550, C)])"
proof -
  have h: "handler (useDebounce_mount 0 A 400) = Some (400, A)"
    and d: "deps (useDebounce_mount 0 A 400) = (A, 400)"
    by (simp_all add: useDebounce_mount_def)
  show "output_at 400 T [(100, B), (150, C)] (useDebounce_mount 0 A 400)
           = (if T < 550 then A else C)"
    using later_inputs_output(1) [OF h d assms, of T]
    by (simp add: output_at_def useDebounce_mount_def)
  show "calls (state_at 400 T [(100, B), (150, C)] (useDebounce_mount 0 A 400))
           = (if T < 550 then [] else [(550, C)])"
    using later_inputs_output(2) [OF h d assms, of T]
    by (simp add: useDebounce_mount_def)
qed

lemma new_input_at_0:
  assumes "fst (deps s) \<noteq> A" and "B \<noteq> C"
  shows "output_at 400 T [(0, A), (100, B), (150, C)] s
           = (if T < 550 then debouncedValue (elapse 0 s) else C)"
    and "calls (state_at 400 T [(0, A), (100, B), (150, C)] s)
           = calls (elapse 0 s) @ (if T < 550 then [] else [(550, C)])"
proof -
  define s1 where "s1 = feed 400 (0, A) s"
  have "deps (elapse 0 s) \<noteq> (A, 400)"
    using assms(1) by (auto simp: deps_elapse)
  then have s1: "s1 = elapse 0 s\<lparr> handler := Some (400, A), deps := (A, 400) \<rparr>"
    by (simp add: s1_def feed_def render_changed)
  have h: "handler s1 = Some (400, A)" and d: "deps s1 = (A, 400)"
    and v: "debouncedValue s1 = debouncedValue (elapse 0 s)"
    and c: "calls s1 = calls (elapse 0 s)"
    by (simp_all add: s1)
  show "output_at 400 T [(0, A), (100, B), (150, C)] s
           = (if T < 550 then debouncedValue (elapse 0 s) else C)"
    using later_inputs_output(1) [OF h d assms(2), of T]
    by (simp add: output_at_def state_at_input_at_0 s1_def [symmetric] v)
  show "calls (state_at 400 T [(0, A), (100, B), (150, C)] s)
           = calls (elapse 0 s) @ (if T < 550 then [] else [(550, C)])"
    using later_inputs_output(2) [OF h d assms(2), of T]
    by (simp add: state_at_input_at_0 s1_def [symmetric] c)
qed

text \<open>
  Claim C9, as stated: fed A at t=0, B at t=100 and C at t=150 with delay 400, the
  output is never A or B. It fails when the input A at t=0 is the first render of the
  hook: \<open>useState(value)\<close> makes A the output at once, and it stays the output until
  the timeout of C fires.
\<close>

theorem debounce_counterexample:
  "output_at 400 0 [(100, js ''ab''), (150, js ''abc'')] (useDebounce_mount 0 (js ''a'') 400)
     = js ''a''
   \<and> output_at 400 549 [(100, js ''ab''), (150, js ''abc'')] (useDebounce_mount 0 (js ''a'') 400)
     = js ''a''"
proof -
  have ne: "js ''ab'' \<noteq> js ''abc''" by (simp add: js_def)
  show ?thesis
    using mounted_with_first_input(1) [OF ne, of 0 "js ''a''"]
      mounted_with_first_input(1) [OF ne, of 549 "js ''a''"]
    by simp
qed

text \<open>
  Claim C9, amended. With delay 400 and three different values A, B and C: a hook
  first rendered with A at t=0 and fed B at t=100 and C at t=150, with no later input,
  returns A until t=550 and C from then on; its only call of \<open>setDebouncedValue\<close> is
  the one with C at t=550, and its output is never B. A hook that was rendered before
  and gets A as a new input at t=0 keeps the output it had at t=0 until t=550, and
  returns C from then on, again with that single call. In every run the output is one
  of the historical input values.
\<close>

theorem debounce_three_inputs:
  assumes "distinct [A, B, C]" and "fst (deps s) \<noteq> A"
  shows "output_at 400 T [(100, B), (150, C)] (useDebounce_mount 0 A 400)
           = (if T < 550 then A else C)
       \<and> calls (state_at 400 T [(100, B), (150, C)] (useDebounce_mount 0 A 400))
           = (if T < 550 then [] else [(550, C)])
       \<and> output_at 400 T [(100, B), (150, C)] (useDebounce_mount 0 A 400) \<noteq> B
       \<and> output_at 400 T [(0, A), (100, B), (150, C)] s
           = (if T < 550 then debouncedValue (elapse 0 s) else C)
       \<and> calls (state_at 400 T [(0, A), (100, B), (150, C)] s)
           = calls (elapse 0 s) @ (if T < 550 then [] else [(550, C)])
       \<and> output_at delay T inputs (useDebounce_mount t0 v0 delay)
           \<in> insert v0 (snd ` {e \<in> set inputs. fst e \<le> T})"
proof -
  have bc: "B \<noteq> C" and ab: "A \<noteq> B" and ac: "A \<noteq> C"
    using assms(1) by auto
  note m = mounted_with_first_input [OF bc, of T A]
  note n = new_input_at_0 [OF assms(2) bc, of T]
  have "output_at 400 T [(100, B), (150, C)] (useDebounce_mount 0 A 400) \<noteq> B"
    using m(1) ab bc by auto
  then show ?thesis
    using m n output_is_historical [of delay T inputs t0 v0] by simp
qed

theorem debounce_three_inputs_witness:
  "output_at 400 549 [(0, js ''a''), (100, js ''ab''), (150, js ''abc'')] demo_search = []
   \<and> output_at 400 550 [(0, js ''a''), (100, js ''ab''), (150, js ''abc'')] demo_search = js ''abc''
   \<and> calls (state_at 400 550 [(0, js ''a''), (100, js ''ab''), (150, js ''abc'')] demo_search)
       = [(550, js ''abc'')]
   \<and> output_at 400 550 [(100, js ''ab''), (150, js ''abc'')] (useDebounce_mount 0 (js ''a'') 400)
       = js ''abc''"
proof -
  have d: "distinct [js ''a'', js ''ab'', js ''abc'']"
    by (simp add: js_def)
  have i: "fst (deps demo_search) \<noteq> js ''a''"
    by (simp add: demo_search_def js_def)
  have e: "elapse 0 demo_search = demo_search"
    by (simp add: elapse_def demo_search_def)
  have v: "debouncedValue demo_search = []" "calls demo_search = []"
    by (simp_all add: demo_search_def)
  note a = debounce_three_inputs [OF d i, of 549 400 "[]" 0 "[]", unfolded e v]
  note b = debounce_three_inputs [OF d i, of 550 400 "[]" 0 "[]", unfolded e v]
  have "output_at 400 549 [(0, js ''a''), (100, js ''ab''), (150, js ''abc'')] demo_search = []"
    using a [THEN conjunct2, THEN conjunct2, THEN conjunct2, THEN conjunct1] by simp
  moreover have
    "output_at 400 550 [(0, js ''a''), (100, js ''ab''), (150, js ''abc'')] demo_search = js ''abc''"
    using b [THEN conjunct2, THEN conjunct2, THEN conjunct2, THEN conjunct1] by simp
  moreover have
    "calls (state_at 400 550 [(0, js ''a''), (100, js ''ab''), (150, js ''abc'')] demo_search)
       = [(550, js ''abc'')]"
    using b [THEN conjunct2, THEN conjunct2, THEN conjunct2, THEN conjunct2, THEN conjunct1]
    by simp
  moreover have
    "output_at 400 550 [(100, js ''ab''), (150, js ''abc'')] (useDebounce_mount 0 (js ''a'') 400)
       = js ''abc''"
    using b [THEN conjunct1] by simp
  ultimately show ?thesis by blast
qed

end
